theory Spec2Isabelle
  imports Main
begin

section \<open>Text chunking strategies and the chunk analyzer\<close>

text \<open>
  A shallow embedding of \<^verbatim>\<open>naive_chunking_problems.py\<close> and \<^verbatim>\<open>quick_fixes.py\<close>.
  A Python \<^verbatim>\<open>str\<close> is a \<open>string\<close>: a list of characters with code points 0 to 255.
  Sizes are Python's unbounded integers, so they are \<open>int\<close>, and \<^verbatim>\<open>len(s)\<close> is
  \<open>int (length s)\<close>. None of the constructors checks its arguments, so every chunker is
  modelled for all integer sizes.
\<close>

subsection \<open>Python string primitives\<close>

text \<open>
  \<^verbatim>\<open>str.isspace\<close> on one character, which is also what \<^verbatim>\<open>\s\<close> matches in a \<^verbatim>\<open>str\<close>
  pattern: tab, line feed, vertical tab, form feed, carriage return, the four separators
  0x1C to 0x1F, space, NEL (0x85) and the no-break space (0xA0).
\<close>

definition isspace :: "char \<Rightarrow> bool" where
  "isspace c \<longleftrightarrow>
     c \<in> {CHR 0x09, CHR 0x0A, CHR 0x0B, CHR 0x0C, CHR 0x0D,
          CHR 0x1C, CHR 0x1D, CHR 0x1E, CHR 0x1F, CHR 0x20, CHR 0x85, CHR 0xA0}"

text \<open>The character class \<^verbatim>\<open>[.!?]\<close> of the sentence pattern.\<close>

definition is_terminal :: "char \<Rightarrow> bool" where
  "is_terminal c \<longleftrightarrow> c = CHR ''.'' \<or> c = CHR ''!'' \<or> c = CHR ''?''"

definition lstrip :: "string \<Rightarrow> string" where
  "lstrip s = dropWhile isspace s"

definition rstrip :: "string \<Rightarrow> string" where
  "rstrip s = rev (dropWhile isspace (rev s))"

definition strip :: "string \<Rightarrow> string" where
  "strip s = rstrip (lstrip s)"

text \<open>The visible content of a string: what is left when all whitespace is deleted.\<close>

definition delete_whitespace :: "string \<Rightarrow> string" where
  "delete_whitespace s = filter (\<lambda>c. \<not> isspace c) s"

text \<open>\<^verbatim>\<open>s[i:j]\<close> with Python's treatment of negative and out-of-range bounds.\<close>

definition py_bound :: "int \<Rightarrow> int \<Rightarrow> int" where
  "py_bound n i = (if i < 0 then max 0 (i + n) else min i n)"

definition py_slice :: "string \<Rightarrow> int \<Rightarrow> int \<Rightarrow> string" where
  "py_slice s i j =
     (let n = int (length s); a = py_bound n i; b = py_bound n j
      in take (nat (b - a)) (drop (nat a) s))"

definition py_startswith :: "string \<Rightarrow> string \<Rightarrow> bool" where
  "py_startswith s p \<longleftrightarrow> take (length p) s = p"

definition py_endswith :: "string \<Rightarrow> string \<Rightarrow> bool" where
  "py_endswith s p \<longleftrightarrow> length p \<le> length s \<and> drop (length s - length p) s = p"

text \<open>\<^verbatim>\<open>s.startswith(tuple)\<close> and \<^verbatim>\<open>s.endswith(tuple)\<close>.\<close>

definition py_startswith_any :: "string \<Rightarrow> string list \<Rightarrow> bool" where
  "py_startswith_any s ps \<longleftrightarrow> list_ex (py_startswith s) ps"

definition py_endswith_any :: "string \<Rightarrow> string list \<Rightarrow> bool" where
  "py_endswith_any s ps \<longleftrightarrow> list_ex (py_endswith s) ps"

text \<open>\<^verbatim>\<open>s.find(p)\<close>: the lowest index where \<open>p\<close> occurs, or \<open>-1\<close>.\<close>

fun py_find_from :: "string \<Rightarrow> string \<Rightarrow> nat \<Rightarrow> int" where
  "py_find_from [] p i = (if p = [] then int i else - 1)"
| "py_find_from (c # cs) p i =
     (if py_startswith (c # cs) p then int i else py_find_from cs p (Suc i))"

definition py_find :: "string \<Rightarrow> string \<Rightarrow> int" where
  "py_find s p = py_find_from s p 0"

text \<open>\<^verbatim>\<open>p in s\<close>.\<close>

definition py_in :: "string \<Rightarrow> string \<Rightarrow> bool" where
  "py_in p s \<longleftrightarrow> py_find s p \<noteq> - 1"

text \<open>
  \<^verbatim>\<open>str.lower\<close> on code points below 256: the ASCII capitals and the Latin-1 capitals
  0xC0 to 0xDE (the multiplication sign 0xD7 is not a letter) move up by 32.
\<close>

definition lower_char :: "char \<Rightarrow> char" where
  "lower_char c =
     (let n = (of_char c :: nat)
      in if (65 \<le> n \<and> n \<le> 90) \<or> (192 \<le> n \<and> n \<le> 222 \<and> n \<noteq> 215)
         then char_of (n + 32) else c)"

definition lower :: "string \<Rightarrow> string" where
  "lower s = map lower_char s"

subsection \<open>NaiveChunker\<close>

datatype py_error = ValueError

text \<open>
  The comprehension over \<^verbatim>\<open>range(0, len(text), chunk_size)\<close>, from index \<open>i\<close> on.
  A negative step makes the range empty; a zero step is refused by \<^verbatim>\<open>range\<close> before
  this is reached.
\<close>

function naive_from :: "int \<Rightarrow> string \<Rightarrow> int \<Rightarrow> string list" where
  "naive_from chunk_size text i =
     (if 0 < chunk_size \<and> i < int (length text)
      then py_slice text i (i + chunk_size) # naive_from chunk_size text (i + chunk_size)
      else [])"
  by pat_completeness auto
termination
  by (relation "measure (\<lambda>(chunk_size, text, i). nat (int (length text) - i))") auto

declare naive_from.simps [simp del]

definition NaiveChunker_chunk :: "int \<Rightarrow> string \<Rightarrow> py_error + string list" where
  "NaiveChunker_chunk chunk_size text =
     (if chunk_size = 0 then Inl ValueError else Inr (naive_from chunk_size text 0))"

subsection \<open>OverlapChunker\<close>

text \<open>
  The \<^verbatim>\<open>while\<close> loop of \<^verbatim>\<open>OverlapChunker.chunk\<close>, with \<open>start\<close> and \<open>chunks\<close> as its
  state. Nothing bounds the loop when \<open>overlap\<close> is not below \<open>chunk_size\<close>, so not
  returning is the value \<open>None\<close>.
\<close>

partial_function (option) overlap_loop ::
  "int \<Rightarrow> int \<Rightarrow> string \<Rightarrow> int \<Rightarrow> string list \<Rightarrow> string list option" where
  "overlap_loop chunk_size overlap text start chunks =
     (if start < int (length text) then
        (if min (start + chunk_size) (int (length text)) = int (length text)
         then Some (chunks @ [py_slice text start (min (start + chunk_size) (int (length text)))])
         else overlap_loop chunk_size overlap text
                (min (start + chunk_size) (int (length text)) - overlap)
                (chunks @ [py_slice text start (min (start + chunk_size) (int (length text)))]))
      else Some chunks)"

declare overlap_loop.simps [code]

definition OverlapChunker_chunk :: "int \<Rightarrow> int \<Rightarrow> string \<Rightarrow> string list option" where
  "OverlapChunker_chunk chunk_size overlap text = overlap_loop chunk_size overlap text 0 []"

text \<open>
  The last \<open>k\<close> characters of \<open>a\<close> are the first \<open>k\<close> characters of \<open>b\<close>, and this for
  every two neighbours of a chunk list.
\<close>

definition shares_overlap :: "nat \<Rightarrow> string \<Rightarrow> string \<Rightarrow> bool" where
  "shares_overlap k a b \<longleftrightarrow>
     k \<le> length a \<and> k \<le> length b \<and> drop (length a - k) a = take k b"

fun adjacent_overlap :: "nat \<Rightarrow> string list \<Rightarrow> bool" where
  "adjacent_overlap k (a # b # rest) = (shares_overlap k a b \<and> adjacent_overlap k (b # rest))"
| "adjacent_overlap k [a] = True"
| "adjacent_overlap k [] = True"

subsection \<open>SentenceAwareChunker\<close>

text \<open>
  \<^verbatim>\<open>re.split(r'(?<=[.!?])\s+', text)\<close>. A match is a maximal run of whitespace whose
  preceding character is a terminator; \<open>cur\<close> is the piece read since the last match, so
  the preceding character is \<open>last cur\<close>, and there is none (or it is whitespace) when
  \<open>cur\<close> is empty. The piece after the last match is always returned, also when empty.
\<close>

function split_sentences_from :: "string \<Rightarrow> string \<Rightarrow> string list" where
  "split_sentences_from cur [] = [cur]"
| "split_sentences_from cur (c # cs) =
     (if isspace c \<and> cur \<noteq> [] \<and> is_terminal (last cur)
      then cur # split_sentences_from [] (dropWhile isspace cs)
      else split_sentences_from (cur @ [c]) cs)"
  by pat_completeness auto
termination
  by (relation "measure (\<lambda>(cur, text). length text)")
     (auto simp: length_dropWhile_le less_Suc_eq_le)

definition split_sentences :: "string \<Rightarrow> string list" where
  "split_sentences text = split_sentences_from [] text"

text \<open>The default of the \<^verbatim>\<open>max_size\<close> argument of \<^verbatim>\<open>SentenceAwareChunker.__init__\<close>.\<close>

definition default_max_size :: int where
  "default_max_size = 1200"

text \<open>One iteration of the loop over the sentences; the state is \<open>(chunks, current_chunk)\<close>.\<close>

fun sentence_step :: "int \<Rightarrow> int \<Rightarrow> string list \<times> string \<Rightarrow> string \<Rightarrow> string list \<times> string" where
  "sentence_step target_size max_size (chunks, current_chunk) sentence =
     (if int (length current_chunk) + int (length sentence) > max_size \<and> current_chunk \<noteq> []
      then (chunks @ [strip current_chunk], sentence)
      else if int (length current_chunk) + int (length sentence) \<le> target_size
      then (chunks, if current_chunk \<noteq> [] then current_chunk @ '' '' @ sentence else sentence)
      else if int (length current_chunk) + int (length sentence) \<le> max_size
      then (chunks, current_chunk @ '' '' @ sentence)
      else (if current_chunk \<noteq> [] then chunks @ [strip current_chunk] else chunks, sentence))"

text \<open>The flush after the loop.\<close>

fun sentence_flush :: "string list \<times> string \<Rightarrow> string list" where
  "sentence_flush (chunks, current_chunk) =
     (if current_chunk \<noteq> [] then chunks @ [strip current_chunk] else chunks)"

definition SentenceAwareChunker_chunk :: "int \<Rightarrow> int \<Rightarrow> string \<Rightarrow> string list" where
  "SentenceAwareChunker_chunk target_size max_size text =
     sentence_flush (foldl (sentence_step target_size max_size) ([], []) (split_sentences text))"

subsection \<open>ParagraphAwareChunker\<close>

text \<open>
  \<^verbatim>\<open>re.split(r'\n\n+', text)\<close>. A match is a maximal run of two or more line feeds; a
  single line feed stays in its paragraph.
\<close>

function split_paragraphs_from :: "string \<Rightarrow> string \<Rightarrow> string list" where
  "split_paragraphs_from cur [] = [cur]"
| "split_paragraphs_from cur (c # cs) =
     (if c = CHR 0x0A \<and> (case cs of [] \<Rightarrow> False | d # _ \<Rightarrow> d = CHR 0x0A)
      then cur # split_paragraphs_from [] (dropWhile (\<lambda>x. x = CHR 0x0A) cs)
      else split_paragraphs_from (cur @ [c]) cs)"
  by pat_completeness auto
termination
  by (relation "measure (\<lambda>(cur, text). length text)")
     (auto simp: length_dropWhile_le less_Suc_eq_le)

definition split_paragraphs :: "string \<Rightarrow> string list" where
  "split_paragraphs text = split_paragraphs_from [] text"

text \<open>
  One iteration of the loop over the paragraphs; the state is \<open>(chunks, current_chunk)\<close>.
  The sentence chunker of the fallback is built as \<^verbatim>\<open>SentenceAwareChunker(self.target_size)\<close>,
  so its \<^verbatim>\<open>max_size\<close> is the default.
\<close>

fun paragraph_step :: "int \<Rightarrow> string list \<times> string \<Rightarrow> string \<Rightarrow> string list \<times> string" where
  "paragraph_step target_size (chunks, current_chunk) paragraph0 =
     (let paragraph = strip paragraph0 in
      if paragraph = [] then (chunks, current_chunk)
      else if int (length paragraph) > target_size then
        foldl (\<lambda>(chunks, current_chunk) pc.
                 if int (length current_chunk) + int (length pc) \<le> target_size
                 then (chunks,
                       if current_chunk \<noteq> [] then current_chunk @ [CHR 0x0A, CHR 0x0A] @ pc else pc)
                 else (if current_chunk \<noteq> [] then chunks @ [current_chunk] else chunks, pc))
          (chunks, current_chunk)
          (SentenceAwareChunker_chunk target_size default_max_size paragraph)
      else if int (length current_chunk) + int (length paragraph) \<le> target_size
      then (chunks,
            if current_chunk \<noteq> [] then current_chunk @ [CHR 0x0A, CHR 0x0A] @ paragraph
            else paragraph)
      else (if current_chunk \<noteq> [] then chunks @ [current_chunk] else chunks, paragraph))"

fun paragraph_flush :: "string list \<times> string \<Rightarrow> string list" where
  "paragraph_flush (chunks, current_chunk) =
     (if current_chunk \<noteq> [] then chunks @ [current_chunk] else chunks)"

definition ParagraphAwareChunker_chunk :: "int \<Rightarrow> string \<Rightarrow> string list" where
  "ParagraphAwareChunker_chunk target_size text =
     paragraph_flush (foldl (paragraph_step target_size) ([], []) (split_paragraphs text))"

text \<open>
  The rule the paragraph chunker applies to a piece, written once: the piece joins the
  accumulator when the two lengths together stay within the target, otherwise the
  accumulator is flushed and the piece starts the next one.
\<close>

fun fit_or_flush :: "int \<Rightarrow> string list \<times> string \<Rightarrow> string \<Rightarrow> string list \<times> string" where
  "fit_or_flush target_size (chunks, current_chunk) piece =
     (if int (length current_chunk) + int (length piece) \<le> target_size
      then (chunks,
            if current_chunk \<noteq> [] then current_chunk @ [CHR 0x0A, CHR 0x0A] @ piece else piece)
      else (if current_chunk \<noteq> [] then chunks @ [current_chunk] else chunks, piece))"

text \<open>
  The paragraph chunker as the specification words it: the fallback for an oversized
  paragraph runs the sentence chunker with the target size as both target and maximum.
\<close>

fun paragraph_step_spec :: "int \<Rightarrow> string list \<times> string \<Rightarrow> string \<Rightarrow> string list \<times> string" where
  "paragraph_step_spec target_size st paragraph0 =
     (let paragraph = strip paragraph0 in
      if paragraph = [] then st
      else if int (length paragraph) > target_size
      then foldl (fit_or_flush target_size) st
             (SentenceAwareChunker_chunk target_size target_size paragraph)
      else fit_or_flush target_size st paragraph)"

definition ParagraphAwareChunker_chunk_spec :: "int \<Rightarrow> string \<Rightarrow> string list" where
  "ParagraphAwareChunker_chunk_spec target_size text =
     paragraph_flush (foldl (paragraph_step_spec target_size) ([], []) (split_paragraphs text))"

subsection \<open>ChunkAnalyzer\<close>

record ChunkProblem =
  chunk_index :: nat
  problem_type :: string
  description :: string
  example :: string

definition sentence_endings :: "string list" where
  "sentence_endings = [''.'', ''!'', ''?'']"

definition reference_phrases :: "string list" where
  "reference_phrases =
     [''as mentioned above'', ''see table'', ''following the previous'',
      ''as described earlier'', ''refer to section'']"

text \<open>
  The list markers of the structural check. The source also lists a bullet (U+2022)
  followed by a space; no string of code points below 256 starts with it, so it has no
  entry here.
\<close>

definition list_markers :: "string list" where
  "list_markers = [''- '', ''* '', ''1. '', ''2. '', ''3. '']"

definition extract_context :: "string \<Rightarrow> string \<Rightarrow> int \<Rightarrow> string" where
  "extract_context text phrase context_size =
     (let idx = py_find (lower text) phrase in
      if idx = - 1 then []
      else ''...'' @ py_slice text (max 0 (idx - context_size))
                      (min (int (length text)) (idx + int (length phrase) + context_size))
           @ ''...'')"

text \<open>The three checks of \<^verbatim>\<open>analyze_chunks\<close> on the chunk at index \<open>i\<close>, in the source's order.\<close>

definition semantic_break :: "string list \<Rightarrow> nat \<Rightarrow> ChunkProblem list" where
  "semantic_break chunks i =
     (if i > 0 \<and> \<not> py_endswith_any (rstrip (chunks ! (i - 1))) sentence_endings
      then [\<lparr>chunk_index = i, problem_type = ''Semantic Break'',
             description = ''Chunk starts mid-sentence'',
             example = take 50 (chunks ! i) @ ''...''\<rparr>]
      else [])"

definition reference_loss :: "string list \<Rightarrow> nat \<Rightarrow> ChunkProblem list" where
  "reference_loss chunks i =
     concat (map (\<lambda>phrase.
        if py_in phrase (lower (chunks ! i))
        then [\<lparr>chunk_index = i, problem_type = ''Reference Loss'',
               description = ''Contains reference '' @ [CHR 0x27] @ phrase @ [CHR 0x27]
                 @ '' but context may be in different chunk'',
               example = extract_context (chunks ! i) phrase 30\<rparr>]
        else []) reference_phrases)"

definition structural_destruction :: "string list \<Rightarrow> nat \<Rightarrow> ChunkProblem list" where
  "structural_destruction chunks i =
     (if py_startswith_any (strip (chunks ! i)) list_markers
      then (if i = 0 \<or> \<not> py_endswith (rstrip (chunks ! (i - 1))) '':''
            then [\<lparr>chunk_index = i, problem_type = ''Structural Destruction'',
                   description = ''List item separated from header'',
                   example = take 50 (chunks ! i) @ ''...''\<rparr>]
            else [])
      else [])"

definition analyze_chunk :: "string list \<Rightarrow> nat \<Rightarrow> ChunkProblem list" where
  "analyze_chunk chunks i =
     semantic_break chunks i @ reference_loss chunks i @ structural_destruction chunks i"

definition analyze_chunks :: "string list \<Rightarrow> ChunkProblem list" where
  "analyze_chunks chunks = concat (map (analyze_chunk chunks) [0..<length chunks])"

section \<open>Properties of the string primitives\<close>

text \<open>
  The character before a match of the sentence pattern is a terminator, so it is not
  whitespace: a match always starts at the beginning of a run of whitespace.
\<close>

lemma terminal_not_space: "is_terminal c \<Longrightarrow> \<not> isspace c"
  by (auto simp: is_terminal_def isspace_def)

lemma delete_whitespace_append [simp]:
  "delete_whitespace (xs @ ys) = delete_whitespace xs @ delete_whitespace ys"
  by (simp add: delete_whitespace_def)

lemma delete_whitespace_Nil [simp]: "delete_whitespace [] = []"
  by (simp add: delete_whitespace_def)

lemma isspace_space [simp]: "isspace CHR '' ''"
  by (simp add: isspace_def)

lemma isspace_newline [simp]: "isspace (CHR 0x0A)"
  by (simp add: isspace_def)

lemma delete_whitespace_Cons [simp]:
  "delete_whitespace (c # s) = (if isspace c then delete_whitespace s else c # delete_whitespace s)"
  by (simp add: delete_whitespace_def)

lemma filter_dropWhile_neg: "filter (\<lambda>c. \<not> P c) (dropWhile P xs) = filter (\<lambda>c. \<not> P c) xs"
  by (induction xs) auto

lemma delete_whitespace_lstrip [simp]: "delete_whitespace (lstrip s) = delete_whitespace s"
  by (simp add: delete_whitespace_def lstrip_def filter_dropWhile_neg)

lemma delete_whitespace_rstrip [simp]: "delete_whitespace (rstrip s) = delete_whitespace s"
proof -
  have "filter (\<lambda>c. \<not> isspace c) (rev (dropWhile isspace (rev s)))
          = rev (filter (\<lambda>c. \<not> isspace c) (dropWhile isspace (rev s)))"
    by (simp add: rev_filter)
  also have "\<dots> = rev (filter (\<lambda>c. \<not> isspace c) (rev s))"
    by (simp add: filter_dropWhile_neg)
  also have "\<dots> = filter (\<lambda>c. \<not> isspace c) s"
    by (simp add: rev_filter)
  finally show ?thesis
    by (simp add: delete_whitespace_def rstrip_def)
qed

lemma delete_whitespace_strip [simp]: "delete_whitespace (strip s) = delete_whitespace s"
  by (simp add: strip_def)

lemma delete_whitespace_concat:
  "delete_whitespace (concat xss) = concat (map delete_whitespace xss)"
  by (induction xss) auto

text \<open>A stripped string is empty or has a visible character at each end.\<close>

lemma rstrip_hd: "rstrip s \<noteq> [] \<Longrightarrow> hd (rstrip s) = hd s"
proof -
  assume ne: "rstrip s \<noteq> []"
  have "rev s = takeWhile isspace (rev s) @ dropWhile isspace (rev s)" by simp
  then have "s = rev (dropWhile isspace (rev s)) @ rev (takeWhile isspace (rev s))"
    by (metis rev_append rev_rev_ident)
  then have "s = rstrip s @ rev (takeWhile isspace (rev s))"
    by (simp add: rstrip_def)
  with ne show ?thesis by (metis hd_append2)
qed

lemma lstrip_rstrip_fixed: "lstrip (rstrip (lstrip s)) = rstrip (lstrip s)"
proof (cases "rstrip (lstrip s) = []")
  case True
  then show ?thesis by (simp add: lstrip_def)
next
  case False
  then have h: "hd (rstrip (lstrip s)) = hd (lstrip s)" by (rule rstrip_hd)
  from False have "lstrip s \<noteq> []" by (auto simp: rstrip_def)
  then have "\<not> isspace (hd (lstrip s))" unfolding lstrip_def by (rule hd_dropWhile)
  with h False show ?thesis by (simp add: lstrip_def dropWhile_eq_self_iff)
qed

lemma rstrip_idem: "rstrip (rstrip s) = rstrip s"
  by (simp add: rstrip_def)

lemma strip_idem: "strip (strip s) = strip s"
  by (simp add: strip_def lstrip_rstrip_fixed rstrip_idem)

lemma strip_all_space: "delete_whitespace s = [] \<Longrightarrow> strip s = []"
proof -
  assume "delete_whitespace s = []"
  then have "\<forall>c \<in> set s. isspace c"
    by (simp add: delete_whitespace_def filter_empty_conv)
  then have "lstrip s = []" by (simp add: lstrip_def)
  then show ?thesis by (simp add: strip_def rstrip_def)
qed

subsection \<open>The sentence chunker keeps the visible characters\<close>

lemma split_sentences_from_content:
  "delete_whitespace (concat (split_sentences_from cur text))
     = delete_whitespace cur @ delete_whitespace text"
proof (induction cur "text" rule: split_sentences_from.induct)
  case (1 cur)
  then show ?case by simp
next
  case (2 cur c cs)
  show ?case
  proof (cases "isspace c \<and> cur \<noteq> [] \<and> is_terminal (last cur)")
    case True
    then have "delete_whitespace (concat (split_sentences_from cur (c # cs)))
                 = delete_whitespace cur @ delete_whitespace (dropWhile isspace cs)"
      using 2 by simp
    also have "\<dots> = delete_whitespace cur @ delete_whitespace (c # cs)"
      using True by (simp add: lstrip_def [symmetric])
    finally show ?thesis .
  next
    case False
    then have "delete_whitespace (concat (split_sentences_from cur (c # cs)))
                 = delete_whitespace (cur @ [c]) @ delete_whitespace cs"
      using 2 by auto
    then show ?thesis by simp
  qed
qed

lemma split_sentences_from_first:
  "cur \<noteq> [] \<or> text \<noteq> [] \<Longrightarrow>
     \<exists>s ss. split_sentences_from cur text = s # ss \<and> s \<noteq> []"
  by (induction cur "text" rule: split_sentences_from.induct) auto

lemma sentence_step_content:
  "sentence_step t m (chunks, cur) s = (chunks', cur') \<Longrightarrow>
     delete_whitespace (concat chunks' @ cur')
       = delete_whitespace (concat chunks @ cur) @ delete_whitespace s"
  by (auto split: if_splits)

lemma sentence_loop_content:
  "foldl (sentence_step t m) (chunks, cur) ss = (chunks', cur') \<Longrightarrow>
     delete_whitespace (concat chunks' @ cur')
       = delete_whitespace (concat chunks @ cur) @ delete_whitespace (concat ss)"
proof (induction ss arbitrary: chunks cur)
  case Nil
  then show ?case by simp
next
  case (Cons s ss)
  obtain c1 u1 where st: "sentence_step t m (chunks, cur) s = (c1, u1)"
    by (cases "sentence_step t m (chunks, cur) s")
  with Cons.prems have "foldl (sentence_step t m) (c1, u1) ss = (chunks', cur')" by simp
  then have "delete_whitespace (concat chunks' @ cur')
               = delete_whitespace (concat c1 @ u1) @ delete_whitespace (concat ss)"
    by (rule Cons.IH)
  with sentence_step_content [OF st] show ?case by simp
qed

lemma sentence_chunks_content:
  "delete_whitespace (concat (SentenceAwareChunker_chunk t m text)) = delete_whitespace text"
proof -
  obtain chunks cur where
    st: "foldl (sentence_step t m) ([], []) (split_sentences text) = (chunks, cur)"
    by (cases "foldl (sentence_step t m) ([], []) (split_sentences text)")
  from sentence_loop_content [OF st]
  have "delete_whitespace (concat chunks @ cur) = delete_whitespace (concat (split_sentences text))"
    by simp
  also have "\<dots> = delete_whitespace text"
    by (simp add: split_sentences_def split_sentences_from_content)
  finally show ?thesis
    by (cases "cur = []") (simp_all add: SentenceAwareChunker_chunk_def st)
qed

subsection \<open>The sentence chunker returns stripped chunks\<close>

lemma sentence_step_stripped:
  "sentence_step t m (chunks, cur) s = (chunks', cur') \<Longrightarrow>
   \<forall>c \<in> set chunks. strip c = c \<Longrightarrow> \<forall>c \<in> set chunks'. strip c = c"
  by (auto split: if_splits simp: strip_idem)

lemma sentence_loop_stripped:
  "foldl (sentence_step t m) (chunks, cur) ss = (chunks', cur') \<Longrightarrow>
   \<forall>c \<in> set chunks. strip c = c \<Longrightarrow> \<forall>c \<in> set chunks'. strip c = c"
proof (induction ss arbitrary: chunks cur)
  case Nil
  then show ?case by simp
next
  case (Cons s ss)
  obtain c1 u1 where st: "sentence_step t m (chunks, cur) s = (c1, u1)"
    by (cases "sentence_step t m (chunks, cur) s")
  with Cons.prems have run: "foldl (sentence_step t m) (c1, u1) ss = (chunks', cur')" by simp
  from sentence_step_stripped [OF st Cons.prems(2)] have "\<forall>c \<in> set c1. strip c = c" .
  with run show ?case by (rule Cons.IH)
qed

lemma sentence_chunks_stripped:
  "c \<in> set (SentenceAwareChunker_chunk t m text) \<Longrightarrow> strip c = c"
proof -
  assume mem: "c \<in> set (SentenceAwareChunker_chunk t m text)"
  obtain chunks cur where
    st: "foldl (sentence_step t m) ([], []) (split_sentences text) = (chunks, cur)"
    by (cases "foldl (sentence_step t m) ([], []) (split_sentences text)")
  from sentence_loop_stripped [OF st] have "\<forall>c \<in> set chunks. strip c = c" by simp
  with mem st show ?thesis
    by (auto simp: SentenceAwareChunker_chunk_def strip_idem split: if_splits)
qed

subsection \<open>The sentence chunker returns a chunk for a non-empty text\<close>

lemma sentence_step_keeps:
  "sentence_step t m (chunks, cur) s = (chunks', cur') \<Longrightarrow>
   chunks \<noteq> [] \<or> cur \<noteq> [] \<or> s \<noteq> [] \<Longrightarrow> chunks' \<noteq> [] \<or> cur' \<noteq> []"
  by (auto split: if_splits)

lemma sentence_loop_keeps:
  "foldl (sentence_step t m) (chunks, cur) ss = (chunks', cur') \<Longrightarrow>
   chunks \<noteq> [] \<or> cur \<noteq> [] \<Longrightarrow> chunks' \<noteq> [] \<or> cur' \<noteq> []"
proof (induction ss arbitrary: chunks cur)
  case Nil
  then show ?case by simp
next
  case (Cons s ss)
  obtain c1 u1 where st: "sentence_step t m (chunks, cur) s = (c1, u1)"
    by (cases "sentence_step t m (chunks, cur) s")
  with Cons.prems have run: "foldl (sentence_step t m) (c1, u1) ss = (chunks', cur')" by simp
  from sentence_step_keeps [OF st] Cons.prems(2) have "c1 \<noteq> [] \<or> u1 \<noteq> []" by blast
  with run show ?case by (rule Cons.IH)
qed

lemma sentence_chunks_nonempty:
  "text \<noteq> [] \<Longrightarrow> SentenceAwareChunker_chunk t m text \<noteq> []"
proof -
  assume "text \<noteq> []"
  then obtain s ss where sp: "split_sentences text = s # ss" and s: "s \<noteq> []"
    using split_sentences_from_first [of "[]" "text"] by (auto simp: split_sentences_def)
  obtain c1 u1 where st: "sentence_step t m ([], []) s = (c1, u1)"
    by (cases "sentence_step t m ([], []) s")
  obtain chunks cur where run: "foldl (sentence_step t m) (c1, u1) ss = (chunks, cur)"
    by (cases "foldl (sentence_step t m) (c1, u1) ss")
  from sentence_step_keeps [OF st] s have "c1 \<noteq> [] \<or> u1 \<noteq> []" by blast
  with run have "chunks \<noteq> [] \<or> cur \<noteq> []" by (rule sentence_loop_keeps)
  moreover have "SentenceAwareChunker_chunk t m text = sentence_flush (chunks, cur)"
    unfolding SentenceAwareChunker_chunk_def sp foldl_Cons st run ..
  ultimately show ?thesis by auto
qed

lemma sentence_chunks_empty:
  "0 \<le> t \<Longrightarrow> SentenceAwareChunker_chunk t m [] = []"
  by (simp add: SentenceAwareChunker_chunk_def split_sentences_def)

subsection \<open>The naive chunker cuts the text into consecutive pieces\<close>

lemma py_slice_inside:
  "0 \<le> i \<Longrightarrow> i \<le> int (length s) \<Longrightarrow> 0 \<le> j \<Longrightarrow>
     py_slice s i j = take (nat (min j (int (length s)) - i)) (drop (nat i) s)"
  by (simp add: py_slice_def py_bound_def min_def)

lemma take_drop_join:
  assumes "0 \<le> i" "0 < k"
  shows "take (nat (min (i + k) (int (length s)) - i)) (drop (nat i) s) @ drop (nat (i + k)) s
           = drop (nat i) s"
proof (cases "i + k \<le> int (length s)")
  case True
  have "drop (nat (i + k)) s = drop (nat k) (drop (nat i) s)"
    using assms by (simp add: nat_add_distrib add.commute)
  moreover have "nat (min (i + k) (int (length s)) - i) = nat k"
    using True by (simp add: min_def)
  ultimately show ?thesis by (simp only: append_take_drop_id)
next
  case False
  with assms show ?thesis by (simp add: min_def)
qed

lemma naive_from_concat:
  "0 < chunk_size \<Longrightarrow> 0 \<le> i \<Longrightarrow> concat (naive_from chunk_size s i) = drop (nat i) s"
proof (induction chunk_size s i rule: naive_from.induct)
  case (1 chunk_size s i)
  show ?case
  proof (cases "i < int (length s)")
    case True
    with 1 have "concat (naive_from chunk_size s (i + chunk_size)) = drop (nat (i + chunk_size)) s"
      by simp
    moreover have "py_slice s i (i + chunk_size)
        = take (nat (min (i + chunk_size) (int (length s)) - i)) (drop (nat i) s)"
      using True 1(2,3) by (simp add: py_slice_inside)
    ultimately show ?thesis
      using True 1(2,3) by (subst naive_from.simps) (simp add: take_drop_join)
  next
    case False
    with 1(3) show ?thesis by (subst naive_from.simps) simp
  qed
qed

lemma naive_from_nonempty:
  "0 < chunk_size \<Longrightarrow> s \<noteq> [] \<Longrightarrow> naive_from chunk_size s 0 \<noteq> []"
  by (subst naive_from.simps) simp

lemma naive_from_empty: "naive_from chunk_size [] 0 = []"
  by (subst naive_from.simps) simp

subsection \<open>The paragraph chunker keeps the visible characters\<close>

lemma loop_content:
  assumes step: "\<And>chunks cur x chunks' cur'. f (chunks, cur) x = (chunks', cur') \<Longrightarrow>
     delete_whitespace (concat chunks' @ cur')
       = delete_whitespace (concat chunks @ cur) @ delete_whitespace x"
  shows "foldl f (chunks, cur) xs = (chunks', cur') \<Longrightarrow>
     delete_whitespace (concat chunks' @ cur')
       = delete_whitespace (concat chunks @ cur) @ delete_whitespace (concat xs)"
proof (induction xs arbitrary: chunks cur)
  case Nil
  then show ?case by simp
next
  case (Cons x xs)
  obtain c1 u1 where st: "f (chunks, cur) x = (c1, u1)"
    by (cases "f (chunks, cur) x")
  with Cons.prems have "foldl f (c1, u1) xs = (chunks', cur')" by simp
  then have "delete_whitespace (concat chunks' @ cur')
               = delete_whitespace (concat c1 @ u1) @ delete_whitespace (concat xs)"
    by (rule Cons.IH)
  with step [OF st] show ?case by simp
qed

lemma split_paragraphs_from_content:
  "delete_whitespace (concat (split_paragraphs_from cur s))
     = delete_whitespace cur @ delete_whitespace s"
proof (induction cur s rule: split_paragraphs_from.induct)
  case (1 cur)
  then show ?case by simp
next
  case (2 cur c cs)
  show ?case
  proof (cases "c = CHR 0x0A \<and> (case cs of [] \<Rightarrow> False | d # _ \<Rightarrow> d = CHR 0x0A)")
    case True
    have "delete_whitespace (dropWhile (\<lambda>x. x = CHR 0x0A) cs) = delete_whitespace cs"
      by (induction cs) auto
    with True 2 show ?thesis by simp
  next
    case False
    with 2 have "delete_whitespace (concat (split_paragraphs_from cur (c # cs)))
                 = delete_whitespace (cur @ [c]) @ delete_whitespace cs"
      by auto
    then show ?thesis by simp
  qed
qed

lemma fit_or_flush_content:
  "fit_or_flush t (chunks, cur) p = (chunks', cur') \<Longrightarrow>
     delete_whitespace (concat chunks' @ cur')
       = delete_whitespace (concat chunks @ cur) @ delete_whitespace p"
  by (auto split: if_splits)

lemma paragraph_step_unfold:
  "paragraph_step t st p0 =
     (if strip p0 = [] then st
      else if int (length (strip p0)) > t
      then foldl (fit_or_flush t) st (SentenceAwareChunker_chunk t default_max_size (strip p0))
      else fit_or_flush t st (strip p0))"
proof -
  have same: "(\<lambda>(chunks, current_chunk) pc.
                 if int (length current_chunk) + int (length pc) \<le> t
                 then (chunks,
                       if current_chunk \<noteq> [] then current_chunk @ [CHR 0x0A, CHR 0x0A] @ pc else pc)
                 else (if current_chunk \<noteq> [] then chunks @ [current_chunk] else chunks, pc))
              = fit_or_flush t"
    by (auto simp: fun_eq_iff)
  show ?thesis
    by (cases st) (simp add: Let_def same del: fit_or_flush.simps, simp)
qed

lemma paragraph_step_content:
  "paragraph_step t (chunks, cur) p0 = (chunks', cur') \<Longrightarrow>
     delete_whitespace (concat chunks' @ cur')
       = delete_whitespace (concat chunks @ cur) @ delete_whitespace p0"
proof -
  assume st: "paragraph_step t (chunks, cur) p0 = (chunks', cur')"
  show ?thesis
  proof (cases "strip p0 = []")
    case True
    then have "delete_whitespace (strip p0) = []" by simp
    then have "delete_whitespace p0 = []" by simp
    with st True show ?thesis by (simp add: paragraph_step_unfold)
  next
    case False
    show ?thesis
    proof (cases "int (length (strip p0)) > t")
      case True
      with st False have "foldl (fit_or_flush t) (chunks, cur)
          (SentenceAwareChunker_chunk t default_max_size (strip p0)) = (chunks', cur')"
        by (simp add: paragraph_step_unfold)
      then have "delete_whitespace (concat chunks' @ cur')
        = delete_whitespace (concat chunks @ cur)
          @ delete_whitespace (concat (SentenceAwareChunker_chunk t default_max_size (strip p0)))"
        using fit_or_flush_content by (rule loop_content [rotated])
      then show ?thesis by (simp add: sentence_chunks_content)
    next
      case nb: False
      with st False have "fit_or_flush t (chunks, cur) (strip p0) = (chunks', cur')"
        by (simp add: paragraph_step_unfold)
      from fit_or_flush_content [OF this] show ?thesis by simp
    qed
  qed
qed

lemma paragraph_chunks_content:
  "delete_whitespace (concat (ParagraphAwareChunker_chunk t s)) = delete_whitespace s"
proof -
  obtain chunks cur where
    st: "foldl (paragraph_step t) ([], []) (split_paragraphs s) = (chunks, cur)"
    by (cases "foldl (paragraph_step t) ([], []) (split_paragraphs s)")
  from loop_content [of "paragraph_step t", OF paragraph_step_content st]
  have "delete_whitespace (concat chunks @ cur) = delete_whitespace (concat (split_paragraphs s))"
    by simp
  also have "\<dots> = delete_whitespace s"
    by (simp add: split_paragraphs_def split_paragraphs_from_content)
  finally show ?thesis
    by (cases "cur = []") (simp_all add: ParagraphAwareChunker_chunk_def st)
qed

lemma paragraph_loop_blank:
  "\<forall>p \<in> set ps. strip p = [] \<Longrightarrow> foldl (paragraph_step t) st ps = st"
  by (induction ps arbitrary: st) (simp_all add: paragraph_step_unfold)

lemma paragraph_chunks_blank:
  assumes "delete_whitespace s = []"
  shows "ParagraphAwareChunker_chunk t s = []"
proof -
  have "delete_whitespace (concat (split_paragraphs s)) = []"
    using assms by (simp add: split_paragraphs_def split_paragraphs_from_content)
  then have "\<forall>p \<in> set (split_paragraphs s). delete_whitespace p = []"
    by (simp add: delete_whitespace_concat)
  then have "\<forall>p \<in> set (split_paragraphs s). strip p = []"
    by (simp add: strip_all_space)
  then have "foldl (paragraph_step t) ([], []) (split_paragraphs s) = ([], [])"
    by (rule paragraph_loop_blank)
  then show ?thesis by (simp add: ParagraphAwareChunker_chunk_def)
qed

lemma paragraph_chunks_empty_iff:
  "ParagraphAwareChunker_chunk t s = [] \<longleftrightarrow> delete_whitespace s = []"
proof
  assume "ParagraphAwareChunker_chunk t s = []"
  then have "delete_whitespace (concat (ParagraphAwareChunker_chunk t s)) = []" by simp
  then show "delete_whitespace s = []" by (simp add: paragraph_chunks_content)
next
  assume "delete_whitespace s = []"
  then show "ParagraphAwareChunker_chunk t s = []" by (rule paragraph_chunks_blank)
qed

subsection \<open>The overlap chunker returns when the overlap is below the chunk size\<close>

lemma adjacent_overlap_snoc:
  "adjacent_overlap k (xs @ [x])
     \<longleftrightarrow> adjacent_overlap k xs \<and> (xs = [] \<or> shares_overlap k (last xs) x)"
  by (induction k xs rule: adjacent_overlap.induct) auto

lemma full_chunk_shares_overlap:
  assumes o: "0 \<le> ov" "ov < w"
    and st: "0 \<le> start" "w \<le> start + ov" "start + ov < int (length s)"
    and e: "e = min (start + w) (int (length s))"
  shows "shares_overlap (nat ov) (take (nat w) (drop (nat (start + ov - w)) s))
           (take (nat (e - start)) (drop (nat start) s))"
proof -
  let ?a = "nat (start + ov - w)"
  have len1: "length (take (nat w) (drop ?a s)) = nat w"
    using o st by (simp add: min_def) linarith
  have len2: "nat ov \<le> length (take (nat (e - start)) (drop (nat start) s))"
    using o st e by (simp add: min_def) linarith
  have "drop (nat w - nat ov) (take (nat w) (drop ?a s))
          = take (nat ov) (drop (nat w - nat ov) (drop ?a s))"
    using o by (simp add: drop_take)
  also have "drop (nat w - nat ov) (drop ?a s) = drop (nat start) s"
  proof -
    have "nat w - nat ov + ?a = nat start" using o st by linarith
    then show ?thesis by (simp add: add.commute)
  qed
  finally have left: "drop (nat w - nat ov) (take (nat w) (drop ?a s))
                        = take (nat ov) (drop (nat start) s)" .
  have "nat ov \<le> nat (e - start)" using o st e by (auto simp: min_def)
  then have right: "take (nat ov) (take (nat (e - start)) (drop (nat start) s))
                 = take (nat ov) (drop (nat start) s)"
    by (simp add: min_def)
  from o have "nat ov \<le> nat w" by simp
  with len1 len2 left right show ?thesis
    unfolding shares_overlap_def by (simp only: len1) 
qed

lemma overlap_loop_total:
  assumes o: "0 \<le> ov" "ov < w"
  shows "0 \<le> start \<Longrightarrow> adjacent_overlap (nat ov) chunks \<Longrightarrow>
     (chunks \<noteq> [] \<longrightarrow>
        last chunks = take (nat w) (drop (nat (start + ov - w)) s)
        \<and> w \<le> start + ov \<and> start + ov < int (length s)) \<Longrightarrow>
     \<exists>res. overlap_loop w ov s start chunks = Some res \<and> adjacent_overlap (nat ov) res"
proof (induction "nat (int (length s) - start)" arbitrary: start chunks rule: less_induct)
  case less
  show ?case
  proof (cases "start < int (length s)")
    case False
    with less.prems o have "chunks = []" by auto
    with False show ?thesis by (subst overlap_loop.simps) simp
  next
    case True
    define e where "e = min (start + w) (int (length s))"
    define c where "c = py_slice s start e"
    have c: "c = take (nat (e - start)) (drop (nat start) s)"
      using True less.prems(1) o unfolding c_def e_def
      by (simp add: py_slice_inside)
    have adj: "adjacent_overlap (nat ov) (chunks @ [c])"
    proof (cases "chunks = []")
      case True
      then show ?thesis by simp
    next
      case ne: False
      with less.prems have
        "last chunks = take (nat w) (drop (nat (start + ov - w)) s)"
        "w \<le> start + ov" "start + ov < int (length s)" by auto
      with full_chunk_shares_overlap [OF o less.prems(1) this(2,3) e_def] c
      have "shares_overlap (nat ov) (last chunks) c" by simp
      with less.prems(2) show ?thesis by (simp add: adjacent_overlap_snoc)
    qed
    show ?thesis
    proof (cases "e = int (length s)")
      case True
      then have "min (start + w) (int (length s)) = int (length s)"
        by (simp add: e_def)
      with \<open>start < int (length s)\<close>
      have "overlap_loop w ov s start chunks = Some (chunks @ [c])"
        by (subst overlap_loop.simps) (simp add: c_def e_def)
      with adj show ?thesis by simp
    next
      case False
      then have e: "e = start + w" and lt: "start + w < int (length s)"
        unfolding e_def by (auto simp: min_def split: if_splits)
      have "\<exists>res. overlap_loop w ov s (e - ov) (chunks @ [c]) = Some res
               \<and> adjacent_overlap (nat ov) res"
      proof (rule less.hyps)
        show "nat (int (length s) - (e - ov)) < nat (int (length s) - start)"
          using e o True by simp
        show "0 \<le> e - ov" using e o less.prems(1) by simp
        show "adjacent_overlap (nat ov) (chunks @ [c])" by (rule adj)
        show "chunks @ [c] \<noteq> [] \<longrightarrow>
                last (chunks @ [c]) = take (nat w) (drop (nat (e - ov + ov - w)) s)
                \<and> w \<le> e - ov + ov \<and> e - ov + ov < int (length s)"
          using e lt c less.prems(1) by simp
      qed
      moreover have "min (start + w) (int (length s)) = start + w"
        using lt by simp
      with lt \<open>start < int (length s)\<close>
      have "overlap_loop w ov s start chunks = overlap_loop w ov s (e - ov) (chunks @ [c])"
        by (subst overlap_loop.simps) (simp add: c_def e)
      ultimately show ?thesis by simp
    qed
  qed
qed

lemma overlap_single_chunk:
  "s \<noteq> [] \<Longrightarrow> int (length s) \<le> w \<Longrightarrow> OverlapChunker_chunk w ov s = Some [s]"
  unfolding OverlapChunker_chunk_def
  by (subst overlap_loop.simps) (simp add: py_slice_def py_bound_def min_def)

lemma overlap_empty_text: "OverlapChunker_chunk w ov [] = Some []"
  unfolding OverlapChunker_chunk_def
  by (subst overlap_loop.simps) simp

text \<open>
  With an overlap of at least the chunk size, \<open>start\<close> never moves forward: on a text
  longer than the chunk size the loop does not return.
\<close>

lemma overlap_loop_returns_only_if:
  "overlap_loop w ov s start chunks = Some y \<Longrightarrow>
     s \<noteq> [] \<Longrightarrow> w < int (length s) \<Longrightarrow> w \<le> ov \<Longrightarrow> start \<le> 0 \<Longrightarrow> False"
proof (induction w ov s start chunks y
         rule: overlap_loop.raw_induct [rotated 1, consumes 1, case_names 1])
  case (1 f w ov s start chunks y)
  from 1(3) have pos: "0 < int (length s)" by simp
  have "start < int (length s)" using 1(6) pos by linarith
  moreover have "min (start + w) (int (length s)) = start + w" using 1(4,6) by linarith
  moreover have "start + w \<noteq> int (length s)" using 1(4,6) by linarith
  ultimately have call:
    "f w ov s (start + w - ov) (chunks @ [py_slice s start (start + w)]) = Some y"
    using 1(2) by simp
  have "start + w - ov \<le> 0" using 1(5,6) by linarith
  with call 1(3,4,5) show ?case by (rule 1(1))
qed

lemma overlap_never_returns:
  assumes "s \<noteq> []" "chunk_size < int (length s)" "chunk_size \<le> overlap"
  shows "OverlapChunker_chunk chunk_size overlap s = None"
proof (cases "OverlapChunker_chunk chunk_size overlap s")
  case None
  then show ?thesis by simp
next
  case (Some y)
  then have "overlap_loop chunk_size overlap s 0 [] = Some y"
    by (simp add: OverlapChunker_chunk_def)
  from overlap_loop_returns_only_if [OF this assms] show ?thesis by simp
qed

subsection \<open>The analyzer's problems, chunk by chunk\<close>

lemma py_endswith_single:
  "py_endswith s [c] \<longleftrightarrow> s \<noteq> [] \<and> last s = c"
proof (cases s rule: rev_cases)
  case Nil
  then show ?thesis by (simp add: py_endswith_def)
next
  case (snoc xs x)
  then show ?thesis by (auto simp: py_endswith_def)
qed

lemma endswith_sentence_ending:
  "py_endswith_any s sentence_endings \<longleftrightarrow> s \<noteq> [] \<and> is_terminal (last s)"
  by (auto simp: py_endswith_any_def sentence_endings_def py_endswith_single is_terminal_def)

lemma filter_by_index:
  assumes idx: "\<And>j p. p \<in> set (f j) \<Longrightarrow> chunk_index p = j"
  shows "filter (\<lambda>p. chunk_index p = i \<and> Q p) (concat (map f [0..<n]))
           = (if i < n then filter Q (f i) else [])"
proof (induction n)
  case 0
  then show ?case by simp
next
  case (Suc n)
  have "filter (\<lambda>p. chunk_index p = i \<and> Q p) (f n) = (if i = n then filter Q (f n) else [])"
    using idx [of _ n] by (auto intro: filter_cong simp: filter_empty_conv)
  with Suc show ?case by auto
qed

lemma semantic_break_index: "p \<in> set (semantic_break chunks j) \<Longrightarrow> chunk_index p = j"
  by (auto simp: semantic_break_def split: if_splits)

lemma reference_loss_index: "p \<in> set (reference_loss chunks j) \<Longrightarrow> chunk_index p = j"
  by (auto simp: reference_loss_def split: if_splits)

lemma structural_destruction_index:
  "p \<in> set (structural_destruction chunks j) \<Longrightarrow> chunk_index p = j"
  by (auto simp: structural_destruction_def split: if_splits)

lemma analyze_chunk_index: "p \<in> set (analyze_chunk chunks j) \<Longrightarrow> chunk_index p = j"
  by (auto simp: analyze_chunk_def dest: semantic_break_index reference_loss_index
        structural_destruction_index)

lemma semantic_break_kind:
  "filter (\<lambda>p. problem_type p = ''Semantic Break'') (semantic_break chunks j)
     = semantic_break chunks j"
  by (simp add: semantic_break_def)

lemma reference_loss_kind:
  "filter (\<lambda>p. problem_type p = ''Semantic Break'') (reference_loss chunks j) = []"
  by (auto simp: reference_loss_def filter_empty_conv split: if_splits)

lemma structural_destruction_kind:
  "filter (\<lambda>p. problem_type p = ''Semantic Break'') (structural_destruction chunks j) = []"
  by (simp add: structural_destruction_def)

lemma semantic_breaks_of_chunk:
  "filter (\<lambda>p. chunk_index p = i \<and> problem_type p = ''Semantic Break'') (analyze_chunks chunks)
     = (if i < length chunks then semantic_break chunks i else [])"
proof -
  have "filter (\<lambda>p. problem_type p = ''Semantic Break'') (analyze_chunk chunks i)
          = semantic_break chunks i"
    by (simp add: analyze_chunk_def semantic_break_kind reference_loss_kind
          structural_destruction_kind)
  with filter_by_index [of "analyze_chunk chunks" i "\<lambda>p. problem_type p = ''Semantic Break''"
         "length chunks", OF analyze_chunk_index]
  show ?thesis by (simp add: analyze_chunks_def)
qed

section \<open>The claims\<close>

text \<open>
  C1. The claim: every chunk of the sentence chunker is at most \<open>max_size\<close> long unless
  it is one sentence that alone exceeds \<open>max_size\<close>. The code compares
  \<^verbatim>\<open>len(current_chunk) + len(sentence)\<close> with \<open>max_size\<close> and then joins the two with a
  space it has not counted: with target and maximum 5, the sentences \<^verbatim>\<open>"a."\<close> and
  \<^verbatim>\<open>"bc."\<close>, both within the maximum, come back as one chunk of 6 characters.
\<close>

theorem sentence_chunk_exceeds_max_size:
  "split_sentences ''a. bc.'' = [''a.'', ''bc.'']
   \<and> SentenceAwareChunker_chunk 5 5 ''a. bc.'' = [''a. bc.'']
   \<and> int (length ''a. bc.'') = 6"
  by (simp add: SentenceAwareChunker_chunk_def split_sentences_def isspace_def is_terminal_def
        strip_def lstrip_def rstrip_def)

text \<open>
  C3. On \<^verbatim>\<open>"Sentence one. Sentence two. Sentence three."\<close> with target size 15 and
  maximum size 20 the sentence chunker returns the three sentences, each as a chunk of its
  own.
\<close>

theorem scenario_a_three_sentences:
  "SentenceAwareChunker_chunk 15 20 ''Sentence one. Sentence two. Sentence three.''
     = [''Sentence one.'', ''Sentence two.'', ''Sentence three.'']"
  by (simp add: SentenceAwareChunker_chunk_def split_sentences_def isspace_def is_terminal_def
        strip_def lstrip_def rstrip_def)

text \<open>
  C10. Every chunk the sentence chunker returns equals its own stripped form: it has no
  leading and no trailing whitespace. This holds for all sizes.
\<close>

theorem sentence_chunks_have_no_outer_whitespace:
  "\<forall>c \<in> set (SentenceAwareChunker_chunk target_size max_size text). strip c = c"
  using sentence_chunks_stripped by blast

theorem sentence_chunks_have_no_outer_whitespace_witness:
  "SentenceAwareChunker_chunk 15 20 ''  One.   Two.  Three words here. '' = [''One. Two.'', ''Three words here.'']
   \<and> strip ''One. Two.'' = ''One. Two.''
   \<and> strip ''Three words here.'' = ''Three words here.''"
proof -
  have run: "SentenceAwareChunker_chunk 15 20 ''  One.   Two.  Three words here. ''
               = [''One. Two.'', ''Three words here.'']"
    by (simp add: SentenceAwareChunker_chunk_def split_sentences_def isspace_def is_terminal_def
          strip_def lstrip_def rstrip_def)
  from sentence_chunks_have_no_outer_whitespace
         [of 15 20 "''  One.   Two.  Three words here. ''"]
  show ?thesis unfolding run by simp
qed

text \<open>
  C4. Concatenating the chunks gives the text back: exactly for the naive chunker (with a
  chunk size of at least 1), and up to whitespace for the sentence and the paragraph
  chunker, whatever their sizes.
\<close>

theorem chunk_contents_round_trip:
  "(0 < chunk_size \<longrightarrow>
      (\<exists>chunks. NaiveChunker_chunk chunk_size text = Inr chunks \<and> concat chunks = text))
   \<and> delete_whitespace (concat (SentenceAwareChunker_chunk target_size max_size text))
       = delete_whitespace text
   \<and> delete_whitespace (concat (ParagraphAwareChunker_chunk paragraph_target text))
       = delete_whitespace text"
  using naive_from_concat [of chunk_size 0 "text"]
  by (simp add: NaiveChunker_chunk_def sentence_chunks_content paragraph_chunks_content)

theorem chunk_contents_round_trip_witness:
  "NaiveChunker_chunk 3 ''ab. cd'' = Inr [''ab.'', '' cd'']
   \<and> concat [''ab.'', '' cd''] = ''ab. cd''
   \<and> delete_whitespace (concat (SentenceAwareChunker_chunk 3 4 ''ab. cd'')) = ''ab.cd''
   \<and> delete_whitespace (concat (ParagraphAwareChunker_chunk 3 ''ab. cd'')) = ''ab.cd''"
proof -
  have naive: "NaiveChunker_chunk 3 ''ab. cd'' = Inr [''ab.'', '' cd'']"
    by (simp add: NaiveChunker_chunk_def naive_from.simps py_slice_def py_bound_def)
  have visible: "delete_whitespace ''ab. cd'' = ''ab.cd''"
    by (simp add: isspace_def)
  from chunk_contents_round_trip [of 3 "''ab. cd''" 3 4 3] naive visible
  show ?thesis by simp
qed

text \<open>
  C5. The claim: for a paragraph longer than the target, the paragraph chunker runs the
  sentence chunker with the target size as both target and maximum. The code builds
  \<^verbatim>\<open>SentenceAwareChunker(self.target_size)\<close>, so the maximum is the default 1200: with
  target 5 the paragraph \<^verbatim>\<open>"ab. cd. ef."\<close> stays one chunk, where the claim's
  configuration gives three.
\<close>

theorem oversized_paragraph_max_is_not_target_counterexample:
  "ParagraphAwareChunker_chunk 5 ''ab. cd. ef.'' = [''ab. cd. ef.'']
   \<and> ParagraphAwareChunker_chunk_spec 5 ''ab. cd. ef.'' = [''ab.'', ''cd.'', ''ef.'']
   \<and> ParagraphAwareChunker_chunk 5 ''ab. cd. ef.''
       \<noteq> ParagraphAwareChunker_chunk_spec 5 ''ab. cd. ef.''"
  by (simp add: ParagraphAwareChunker_chunk_def ParagraphAwareChunker_chunk_spec_def
        split_paragraphs_def SentenceAwareChunker_chunk_def split_sentences_def
        default_max_size_def isspace_def is_terminal_def strip_def lstrip_def rstrip_def)

text \<open>
  C5, amended. For a paragraph whose stripped form is not empty and longer than the target,
  the paragraph chunker runs the sentence chunker on the stripped paragraph with the
  target size as target and 1200 as maximum, and merges the resulting chunks into the
  accumulator, one after the other, with the fit-or-flush rule; a shorter paragraph is
  merged whole with the same rule.
\<close>

theorem oversized_paragraph_fallback:
  "strip paragraph \<noteq> [] \<Longrightarrow>
     paragraph_step target_size st paragraph
       = (if int (length (strip paragraph)) > target_size
          then foldl (fit_or_flush target_size) st
                 (SentenceAwareChunker_chunk target_size 1200 (strip paragraph))
          else fit_or_flush target_size st (strip paragraph))"
  by (simp add: paragraph_step_unfold default_max_size_def)

theorem oversized_paragraph_fallback_witness:
  "strip '' ab. cd. ef.'' \<noteq> [] \<and> int (length (strip '' ab. cd. ef.'')) > 5
   \<and> SentenceAwareChunker_chunk 5 1200 (strip '' ab. cd. ef.'') = [''ab. cd. ef.'']
   \<and> paragraph_step 5 ([''xy''], ''z'') '' ab. cd. ef.'' = ([''xy'', ''z''], ''ab. cd. ef.'')"
proof -
  have s: "strip '' ab. cd. ef.'' = ''ab. cd. ef.''"
    by (simp add: strip_def lstrip_def rstrip_def isspace_def)
  have run: "SentenceAwareChunker_chunk 5 1200 ''ab. cd. ef.'' = [''ab. cd. ef.'']"
    by (simp add: SentenceAwareChunker_chunk_def split_sentences_def isspace_def is_terminal_def
          strip_def lstrip_def rstrip_def)
  have "strip '' ab. cd. ef.'' \<noteq> []" by (simp add: s)
  from oversized_paragraph_fallback [OF this, of 5 "([''xy''], ''z'')"]
  show ?thesis by (simp add: s run)
qed

text \<open>
  C6. The claim: each splitter returns at least one chunk for a non-empty text. The
  paragraph chunker skips every paragraph that is empty after stripping
  (\<^verbatim>\<open>if not paragraph: continue\<close>), so a text of one space gives no chunk.
\<close>

theorem paragraph_chunker_blank_text_counterexample:
  "'' '' \<noteq> [] \<and> ParagraphAwareChunker_chunk 100 '' '' = []"
  by (simp add: ParagraphAwareChunker_chunk_def split_paragraphs_def
        isspace_def strip_def lstrip_def rstrip_def)

text \<open>
  C6, amended. With a chunk size of at least 1 the naive chunker returns no chunk exactly
  for the empty text; with a target size of at least 0 so does the sentence chunker; the
  paragraph chunker returns no chunk exactly for a text without a visible character, the
  empty text among them.
\<close>

theorem chunk_sequence_empty_iff:
  "(0 < chunk_size \<longrightarrow>
      (\<exists>chunks. NaiveChunker_chunk chunk_size text = Inr chunks \<and> (chunks = [] \<longleftrightarrow> text = [])))
   \<and> (0 \<le> target_size \<longrightarrow>
        (SentenceAwareChunker_chunk target_size max_size text = [] \<longleftrightarrow> text = []))
   \<and> (ParagraphAwareChunker_chunk paragraph_target text = [] \<longleftrightarrow> delete_whitespace text = [])"
proof -
  have "0 < chunk_size \<Longrightarrow> (naive_from chunk_size text 0 = [] \<longleftrightarrow> text = [])"
    using naive_from_nonempty [of chunk_size "text"] by (auto simp: naive_from_empty)
  moreover have "0 \<le> target_size \<Longrightarrow>
      (SentenceAwareChunker_chunk target_size max_size text = [] \<longleftrightarrow> text = [])"
    using sentence_chunks_nonempty [of "text" target_size max_size]
    by (auto simp: sentence_chunks_empty)
  ultimately show ?thesis
    by (simp add: NaiveChunker_chunk_def paragraph_chunks_empty_iff)
qed

theorem chunk_sequence_empty_iff_witness:
  "NaiveChunker_chunk 3 ''a. b'' = Inr [''a. '', ''b'']
   \<and> SentenceAwareChunker_chunk 3 4 ''a. b'' = [''a. b'']
   \<and> ParagraphAwareChunker_chunk 3 ''a. b'' = [''a. b'']
   \<and> NaiveChunker_chunk 3 [] = Inr []
   \<and> SentenceAwareChunker_chunk 3 4 [] = []
   \<and> ParagraphAwareChunker_chunk 3 [] = []"
proof -
  have naive: "NaiveChunker_chunk 3 ''a. b'' = Inr [''a. '', ''b'']"
    by (simp add: NaiveChunker_chunk_def naive_from.simps py_slice_def py_bound_def)
  have sentence: "SentenceAwareChunker_chunk 3 4 ''a. b'' = [''a. b'']"
    by (simp add: SentenceAwareChunker_chunk_def split_sentences_def isspace_def is_terminal_def
          strip_def lstrip_def rstrip_def)
  have para: "ParagraphAwareChunker_chunk 3 ''a. b'' = [''a. b'']"
    by (simp add: ParagraphAwareChunker_chunk_def split_paragraphs_def
          SentenceAwareChunker_chunk_def split_sentences_def default_max_size_def
          isspace_def is_terminal_def strip_def lstrip_def rstrip_def)
  from chunk_sequence_empty_iff [of 3 "[]" 3 4 3] naive sentence para
  show ?thesis by auto
qed

text \<open>
  C2. The claim: with \<open>0 \<le> overlap < chunk_size\<close> neighbouring chunks of the overlap
  chunker share \<open>overlap\<close> characters, and a text no longer than the chunk size gives
  exactly one chunk. The loop \<^verbatim>\<open>while start < len(text)\<close> is not entered for the empty
  text, whose length is within every chunk size, so that text gives no chunk.
\<close>

theorem overlap_empty_text_counterexample:
  "int (length ([] :: string)) \<le> 10 \<and> OverlapChunker_chunk 10 3 [] = Some []"
  by (simp add: overlap_empty_text)

text \<open>
  C2, amended. With \<open>0 \<le> overlap < chunk_size\<close> the overlap chunker returns, the last
  \<open>overlap\<close> characters of every chunk are the first \<open>overlap\<close> characters of the next
  one (for every neighbouring pair, the last one included), a non-empty text no longer
  than the chunk size gives exactly one chunk, the text itself, and the empty text gives
  none.
\<close>

theorem overlap_exactness:
  "0 \<le> overlap \<Longrightarrow> overlap < chunk_size \<Longrightarrow>
     \<exists>chunks. OverlapChunker_chunk chunk_size overlap s = Some chunks
       \<and> adjacent_overlap (nat overlap) chunks
       \<and> (s \<noteq> [] \<and> int (length s) \<le> chunk_size \<longrightarrow> chunks = [s])
       \<and> (s = [] \<longrightarrow> chunks = [])"
proof -
  assume o: "0 \<le> overlap" "overlap < chunk_size"
  from overlap_loop_total [OF o, of 0 "[]" s]
  obtain res where res: "OverlapChunker_chunk chunk_size overlap s = Some res"
    and adj: "adjacent_overlap (nat overlap) res"
    by (auto simp: OverlapChunker_chunk_def)
  moreover have "s \<noteq> [] \<and> int (length s) \<le> chunk_size \<longrightarrow> res = [s]"
    using res overlap_single_chunk [of s chunk_size overlap] by auto
  moreover have "s = [] \<longrightarrow> res = []"
    using res overlap_empty_text [of chunk_size overlap] by auto
  ultimately show ?thesis by blast
qed

theorem overlap_exactness_witness:
  "(0::int) \<le> 1 \<and> (1::int) < 4
   \<and> OverlapChunker_chunk 4 1 ''abcdefgh'' = Some [''abcd'', ''defg'', ''gh'']
   \<and> adjacent_overlap 1 [''abcd'', ''defg'', ''gh'']
   \<and> OverlapChunker_chunk 4 1 ''abc'' = Some [''abc'']"
proof -
  have run: "OverlapChunker_chunk 4 1 ''abcdefgh'' = Some [''abcd'', ''defg'', ''gh'']"
    by (simp add: OverlapChunker_chunk_def overlap_loop.simps py_slice_def py_bound_def)
  from overlap_exactness [of 1 4 "''abcdefgh''"] run
  have "adjacent_overlap (nat 1) [''abcd'', ''defg'', ''gh'']" by simp
  moreover from overlap_exactness [of 1 4 "''abc''"]
  have "OverlapChunker_chunk 4 1 ''abc'' = Some [''abc'']" by auto
  ultimately show ?thesis using run by simp
qed

text \<open>
  C7. The claim: chunk size 10 and overlap 3 on a text of 25 characters give three chunks,
  of lengths 10, 10 and a shorter last one. The starts are 0, 7, 14 and 21, so there are
  four chunks, of lengths 10, 10, 10 and 4.
\<close>

theorem overlap_scenario_c_counterexample:
  "length ''abcdefghijklmnopqrstuvwxy'' = 25
   \<and> OverlapChunker_chunk 10 3 ''abcdefghijklmnopqrstuvwxy''
       = Some [''abcdefghij'', ''hijklmnopq'', ''opqrstuvwx'', ''vwxy'']"
  by (simp add: OverlapChunker_chunk_def overlap_loop.simps py_slice_def py_bound_def)

text \<open>
  C7, amended. Chunk size 10 and overlap 3 on any text of 25 characters give four chunks,
  of lengths 10, 10, 10 and 4, and the last 3 characters of chunk 0 are the first 3
  characters of chunk 1.
\<close>

theorem overlap_scenario_c:
  "length s = 25 \<Longrightarrow>
     \<exists>c0 c1 c2 c3. OverlapChunker_chunk 10 3 s = Some [c0, c1, c2, c3]
       \<and> length c0 = 10 \<and> length c1 = 10 \<and> length c2 = 10 \<and> length c3 = 4
       \<and> drop 7 c0 = take 3 c1"
proof -
  assume len: "length s = 25"
  then have "OverlapChunker_chunk 10 3 s
               = Some [take 10 s, take 10 (drop 7 s), take 10 (drop 14 s), drop 21 s]"
    by (simp add: OverlapChunker_chunk_def overlap_loop.simps py_slice_def py_bound_def)
  moreover have "drop 7 (take 10 s) = take 3 (take 10 (drop 7 s))"
    by (simp add: drop_take)
  ultimately show ?thesis using len by simp
qed

theorem overlap_scenario_c_witness:
  "length ''The quick brown fox jumps'' = 25
   \<and> OverlapChunker_chunk 10 3 ''The quick brown fox jumps''
       = Some [''The quick '', ''ck brown f'', ''n fox jump'', ''umps'']"
proof -
  have len: "length ''The quick brown fox jumps'' = 25" by simp
  have run: "OverlapChunker_chunk 10 3 ''The quick brown fox jumps''
       = Some [''The quick '', ''ck brown f'', ''n fox jump'', ''umps'']"
    by (simp add: OverlapChunker_chunk_def overlap_loop.simps py_slice_def py_bound_def)
  from overlap_scenario_c [OF len] run show ?thesis by simp
qed

text \<open>
  C8. The claim: sizes that break the constraints are reported as an error before any
  chunk is produced. No constructor and no \<open>chunk\<close> method checks a size: a sentence
  chunker with target size 10 above its maximum size 5 returns a chunk.
\<close>

theorem invalid_sizes_counterexample:
  "\<not> (10::int) \<le> 5 \<and> SentenceAwareChunker_chunk 10 5 ''ab.'' = [''ab.'']"
  by (simp add: SentenceAwareChunker_chunk_def split_sentences_def isspace_def is_terminal_def
        strip_def lstrip_def rstrip_def)

text \<open>
  C8, amended. The sizes are used as they are given. For all integer sizes, also those
  that break the constraints, the sentence chunker returns at least one chunk for a
  non-empty text and the paragraph chunker for a text with a visible character; the
  overlap chunker returns a non-empty text no longer than the chunk size as one chunk,
  whatever the overlap; the naive chunker returns no chunk for a negative chunk size, and
  only the chunk size 0 ends the call with an error, the \<^verbatim>\<open>ValueError\<close> of \<^verbatim>\<open>range\<close>,
  before any chunk is produced.
\<close>

theorem invalid_sizes_are_used_unchecked:
  "NaiveChunker_chunk 0 s = Inl ValueError
   \<and> (naive_size < 0 \<longrightarrow> NaiveChunker_chunk naive_size s = Inr [])
   \<and> (s \<noteq> [] \<and> int (length s) \<le> chunk_size \<longrightarrow>
        OverlapChunker_chunk chunk_size overlap s = Some [s])
   \<and> (s \<noteq> [] \<longrightarrow> SentenceAwareChunker_chunk target_size max_size s \<noteq> [])
   \<and> (delete_whitespace s \<noteq> [] \<longrightarrow> ParagraphAwareChunker_chunk paragraph_target s \<noteq> [])"
proof -
  have "naive_size < 0 \<longrightarrow> naive_from naive_size s 0 = []"
    by (subst naive_from.simps) simp
  then show ?thesis
    by (simp add: NaiveChunker_chunk_def overlap_single_chunk sentence_chunks_nonempty
          paragraph_chunks_empty_iff)
qed

theorem invalid_sizes_are_used_unchecked_witness:
  "NaiveChunker_chunk 0 ''ab.'' = Inl ValueError
   \<and> NaiveChunker_chunk (- 3) ''ab.'' = Inr []
   \<and> OverlapChunker_chunk 5 7 ''ab.'' = Some [''ab.'']
   \<and> SentenceAwareChunker_chunk 10 5 ''ab.'' \<noteq> []
   \<and> ParagraphAwareChunker_chunk (- 1) ''ab.'' \<noteq> []"
proof -
  have "delete_whitespace ''ab.'' \<noteq> []" by (simp add: isspace_def)
  with invalid_sizes_are_used_unchecked [of "''ab.''" "- 3" 5 7 10 5 "- 1"]
  show ?thesis by simp
qed

text \<open>
  C9. Among the problems the analyzer returns, those of kind Semantic Break at chunk
  \<open>i\<close> are exactly one when \<open>i > 0\<close> and the previous chunk, stripped on the right,
  does not end with a full stop, an exclamation mark or a question mark, and none
  otherwise; and the chunks \<^verbatim>\<open>"Para ends mid"\<close>, \<^verbatim>\<open>"sentence. Next."\<close> give exactly one
  problem, a Semantic Break at chunk 1.
\<close>

theorem semantic_break_rule:
  "filter (\<lambda>p. chunk_index p = i \<and> problem_type p = ''Semantic Break'') (analyze_chunks chunks)
     = (if 0 < i \<and> i < length chunks
           \<and> \<not> (rstrip (chunks ! (i - 1)) \<noteq> [] \<and> is_terminal (last (rstrip (chunks ! (i - 1)))))
        then [\<lparr>chunk_index = i, problem_type = ''Semantic Break'',
               description = ''Chunk starts mid-sentence'',
               example = take 50 (chunks ! i) @ ''...''\<rparr>]
        else [])
   \<and> analyze_chunks [''Para ends mid'', ''sentence. Next.'']
       = [\<lparr>chunk_index = 1, problem_type = ''Semantic Break'',
            description = ''Chunk starts mid-sentence'',
            example = ''sentence. Next....''\<rparr>]"
proof -
  have "analyze_chunks [''Para ends mid'', ''sentence. Next.'']
       = [\<lparr>chunk_index = 1, problem_type = ''Semantic Break'',
            description = ''Chunk starts mid-sentence'',
            example = ''sentence. Next....''\<rparr>]"
    by (simp add: analyze_chunks_def analyze_chunk_def semantic_break_def reference_loss_def
          structural_destruction_def py_endswith_any_def py_endswith_def py_startswith_any_def
          py_startswith_def sentence_endings_def reference_phrases_def list_markers_def
          py_in_def py_find_def lower_def lower_char_def isspace_def strip_def lstrip_def
          rstrip_def upt_rec)
  then show ?thesis
    by (simp add: semantic_breaks_of_chunk semantic_break_def endswith_sentence_ending)
qed

theorem semantic_break_rule_witness:
  "filter (\<lambda>p. chunk_index p = 2 \<and> problem_type p = ''Semantic Break'')
      (analyze_chunks [''One. '', ''- two'', ''three!'', ''four'']) 
     = [\<lparr>chunk_index = 2, problem_type = ''Semantic Break'',
               description = ''Chunk starts mid-sentence'',
               example = ''three!...''\<rparr>]
   \<and> filter (\<lambda>p. chunk_index p = 1 \<and> problem_type p = ''Semantic Break'')
      (analyze_chunks [''One. '', ''- two'', ''three!'', ''four'']) = []"
proof -
  have "rstrip ''One. '' = ''One.''" "rstrip ''- two'' = ''- two''"
    by (simp_all add: rstrip_def isspace_def)
  with semantic_break_rule [of 2 "[''One. '', ''- two'', ''three!'', ''four'']"]
    semantic_break_rule [of 1 "[''One. '', ''- two'', ''three!'', ''four'']"]
  show ?thesis by (simp add: is_terminal_def)
qed

end
